theory Spec2Isabelle
  imports Complex_Main "HOL-Library.Multiset"
begin

section \<open>RandomSwap: keras_nlp/layers/preprocessing/random_swap.py\<close>

subsection \<open>The layer object and its constructor\<close>

text \<open>
  The class of an exception a library call raises inside the constructor: what the model
  needs to know of it is whether it is a \<^verbatim>\<open>ValueError\<close>.
\<close>

datatype py_exception = ValueError | Other_exception

text \<open>
  The library calls of \<^verbatim>\<open>RandomSwap.__init__\<close> that can raise:
  \<^verbatim>\<open>super().__init__(name=name, dtype=dtype, **kwargs)\<close> (line 142),
  \<^verbatim>\<open>random.randint(1, 1e9)\<close> (line 146), \<^verbatim>\<open>tf.random.Generator.from_seed\<close> (line 147),
  and \<^verbatim>\<open>tf.convert_to_tensor\<close> with \<^verbatim>\<open>tf.lookup.StaticHashTable\<close> (lines 164--170).
\<close>

datatype library_call = Super_init | Randint | From_seed | Hash_table

text \<open>
  How the constructor can fail: by one of its own three \<^verbatim>\<open>raise ValueError(...)\<close>
  statements (lines 137, 152 and 158), or by an exception that comes out of a library call
  and is not caught.
\<close>

datatype init_error =
    Output_dtype_error string
  | Max_swaps_error int
  | Skip_args_error
  | Library_error library_call py_exception

fun is_ValueError :: "init_error \<Rightarrow> bool" where
  "is_ValueError (Output_dtype_error d) = True"
| "is_ValueError (Max_swaps_error m) = True"
| "is_ValueError Skip_args_error = True"
| "is_ValueError (Library_error c e) = (e = ValueError)"

text \<open>
  \<^verbatim>\<open>tf.random.Generator.from_seed(seed)\<close>: a stateful generator. Its state is the seed it was
  made from and the number of \<^verbatim>\<open>make_seeds()\<close> calls made so far; every call of
  \<^verbatim>\<open>make_seeds\<close> hands out a fresh stateless seed and advances the state.
\<close>

record generator =
  key :: int
  counter :: nat

type_synonym stateless_seed = "int \<times> nat"

definition from_seed :: "int \<Rightarrow> generator" where
  "from_seed s = \<lparr>key = s, counter = 0\<rparr>"

definition make_seeds :: "generator \<Rightarrow> stateless_seed \<times> generator" where
  "make_seeds g = ((key g, counter g), g\<lparr>counter := Suc (counter g)\<rparr>)"

text \<open>
  The attributes \<^verbatim>\<open>__init__\<close> stores on \<^verbatim>\<open>self\<close>. A Python argument that may be
  \<^verbatim>\<open>None\<close> is an \<open>option\<close>. The skip list is a Python list of token values and the two
  skip functions are functions from a token to a truth value, as the docstring of the class
  says. The \<^verbatim>\<open>StaticHashTable\<close> attribute is a function of \<^verbatim>\<open>skip_list\<close> alone and is
  modelled by \<open>StaticHashTable_lookup\<close> below.
\<close>

record 'a RandomSwap =
  rate :: real
  max_swaps :: "int option"
  seed :: int
  generator :: generator
  skip_list :: "'a list option"
  skip_fn :: "('a \<Rightarrow> bool) option"
  skip_py_fn :: "('a \<Rightarrow> bool) option"

text \<open>
  \<^verbatim>\<open>[self.skip_list, self.skip_fn, self.skip_py_fn].count(None)\<close>: the number of the three
  attributes that are \<^verbatim>\<open>None\<close>.
\<close>

definition count_None ::
  "'a list option \<Rightarrow> ('a \<Rightarrow> bool) option \<Rightarrow> ('a \<Rightarrow> bool) option \<Rightarrow> nat" where
  "count_None sl sf spf = length (filter id [sl = None, sf = None, spf = None])"

text \<open>
  What the constructor takes from outside the file, as parameters of the model:
  \<^item> \<^verbatim>\<open>is_int_dtype\<close> and \<^verbatim>\<open>is_string_dtype\<close> of \<^verbatim>\<open>keras_nlp.utils.tensor_utils\<close>;
  \<^item> whether the constructor of the base class raises for the dtype (and the name and
    keyword arguments, which the model does not look at);
  \<^item> what \<^verbatim>\<open>random.randint(1, 1e9)\<close> returns, or raises;
  \<^item> whether \<^verbatim>\<open>tf.random.Generator.from_seed\<close> raises for the seed;
  \<^item> whether building the hash table raises for the skip list
    (\<^verbatim>\<open>tf.convert_to_tensor(self.skip_list)\<close> raises a \<^verbatim>\<open>ValueError\<close> for a list it cannot
    turn into a tensor, such as one with an integer outside the range of its dtype).
  \<open>None\<close> stands for a call that returns.
\<close>

record 'a library =
  is_int_dtype :: "string \<Rightarrow> bool"
  is_string_dtype :: "string \<Rightarrow> bool"
  super_init :: "string \<Rightarrow> py_exception option"
  randint :: "py_exception + int"
  generator_from_seed :: "int \<Rightarrow> py_exception option"
  hash_table :: "'a list \<Rightarrow> py_exception option"

text \<open>
  \<^verbatim>\<open>RandomSwap.__init__\<close> (lines 124--170), statement by statement: the dtype check, the
  base class constructor, the seed and the generator, the \<^verbatim>\<open>max_swaps\<close> check, the check
  of the skip arguments, and the hash table, which is built only \<^verbatim>\<open>if self.skip_list\<close>
  (a list that is given and not empty). An earlier failure hides a later one.
\<close>

definition RandomSwap_init ::
  "'a library \<Rightarrow> real \<Rightarrow> int option \<Rightarrow> 'a list option \<Rightarrow> ('a \<Rightarrow> bool) option \<Rightarrow>
   ('a \<Rightarrow> bool) option \<Rightarrow> int option \<Rightarrow> string \<Rightarrow> init_error + 'a RandomSwap" where
  "RandomSwap_init lib rate_arg max_swaps_arg skip_list_arg skip_fn_arg skip_py_fn_arg
     seed_arg dtype =
   (if \<not> is_int_dtype lib dtype \<and> \<not> is_string_dtype lib dtype
      then Inl (Output_dtype_error dtype)
    else case super_init lib dtype of
      Some e \<Rightarrow> Inl (Library_error Super_init e)
    | None \<Rightarrow>
    (case (case seed_arg of None \<Rightarrow> randint lib | Some v \<Rightarrow> Inr v) of
      Inl e \<Rightarrow> Inl (Library_error Randint e)
    | Inr s \<Rightarrow>
    (case generator_from_seed lib s of
      Some e \<Rightarrow> Inl (Library_error From_seed e)
    | None \<Rightarrow>
    (if max_swaps_arg \<noteq> None \<and> the max_swaps_arg < 0
       then Inl (Max_swaps_error (the max_swaps_arg))
     else if count_None skip_list_arg skip_fn_arg skip_py_fn_arg < 2
       then Inl Skip_args_error
     else
       let self = \<lparr>rate = rate_arg, max_swaps = max_swaps_arg, seed = s,
                   generator = from_seed s, skip_list = skip_list_arg,
                   skip_fn = skip_fn_arg, skip_py_fn = skip_py_fn_arg\<rparr>
       in if skip_list_arg \<noteq> None \<and> the skip_list_arg \<noteq> []
          then (case hash_table lib (the skip_list_arg) of
                  Some e \<Rightarrow> Inl (Library_error Hash_table e)
                | None \<Rightarrow> Inr self)
          else Inr self))))"

text \<open>Whether a construction ends in a \<^verbatim>\<open>ValueError\<close>.\<close>

definition raises_ValueError :: "init_error + 'a RandomSwap \<Rightarrow> bool" where
  "raises_ValueError res = (case res of Inl e \<Rightarrow> is_ValueError e | Inr self \<Rightarrow> False)"

text \<open>
  The statements before the check of the skip arguments all pass: the dtype is an integer
  type or a string, the base class constructor returns, there is a seed and the generator
  is made from it, and \<^verbatim>\<open>max_swaps\<close> is \<^verbatim>\<open>None\<close> or not negative.
\<close>

definition earlier_steps_pass :: "'a library \<Rightarrow> int option \<Rightarrow> int option \<Rightarrow> string \<Rightarrow> bool" where
  "earlier_steps_pass lib max_swaps_arg seed_arg dtype \<longleftrightarrow>
     (is_int_dtype lib dtype \<or> is_string_dtype lib dtype) \<and>
     super_init lib dtype = None \<and>
     (case (case seed_arg of None \<Rightarrow> randint lib | Some v \<Rightarrow> Inr v) of
        Inl e \<Rightarrow> False
      | Inr s \<Rightarrow> generator_from_seed lib s = None) \<and>
     (max_swaps_arg = None \<or> 0 \<le> the max_swaps_arg)"

text \<open>
  The hash table is not built (no skip list, or an empty one), or building it returns.
\<close>

definition hash_table_builds :: "'a library \<Rightarrow> 'a list option \<Rightarrow> bool" where
  "hash_table_builds lib skip_list_arg \<longleftrightarrow>
     skip_list_arg = None \<or> the skip_list_arg = [] \<or>
     hash_table lib (the skip_list_arg) = None"

text \<open>
  A library for concrete constructions, over integer tokens: the dtypes \<^verbatim>\<open>int32\<close> and
  \<^verbatim>\<open>string\<close> are accepted, the base class, the seed and the generator never fail, and
  the tensor of the skip list is an \<^verbatim>\<open>int32\<close> one, which \<^verbatim>\<open>tf.convert_to_tensor\<close>
  refuses with a \<^verbatim>\<open>ValueError\<close> when an element does not fit.
\<close>

definition example_library :: "int library" where
  "example_library =
     \<lparr>is_int_dtype = (\<lambda>d. d = ''int32''), is_string_dtype = (\<lambda>d. d = ''string''),
      super_init = (\<lambda>d. None), randint = Inr 7, generator_from_seed = (\<lambda>s. None),
      hash_table = (\<lambda>ks. if list_all (\<lambda>k. - (2 ^ 31) \<le> k \<and> k < 2 ^ 31) ks then None
                           else Some ValueError)\<rparr>"

text \<open>How many of the three skip arguments were given (are not \<^verbatim>\<open>None\<close>).\<close>

definition count_given ::
  "'a list option \<Rightarrow> ('a \<Rightarrow> bool) option \<Rightarrow> ('a \<Rightarrow> bool) option \<Rightarrow> nat" where
  "count_given sl sf spf = length (filter id [sl \<noteq> None, sf \<noteq> None, spf \<noteq> None])"

subsection \<open>The call\<close>

text \<open>
  Failures of the TensorFlow operations \<^verbatim>\<open>call\<close> uses: an integer
  \<^verbatim>\<open>stateless_uniform\<close> over an empty range, and an index outside the tensor it reads.
\<close>

datatype tf_error = Invalid_range | Index_out_of_range

text \<open>
  The input of \<^verbatim>\<open>call\<close>: one sequence of tokens (a rank one tensor or a list) or a
  batch of sequences (a rank two or ragged tensor, or a list of lists).
\<close>

datatype 'a tokens = Unbatched "'a list" | Batched "'a list list"

fun rows :: "'a tokens \<Rightarrow> 'a list list" where
  "rows (Unbatched r) = [r]"
| "rows (Batched rs) = rs"

fun is_batched :: "'a tokens \<Rightarrow> bool" where
  "is_batched (Unbatched r) = False"
| "is_batched (Batched rs) = True"

text \<open>
  Modelled from the spec: \<^verbatim>\<open>convert_to_ragged_batch\<close> of \<^verbatim>\<open>keras_nlp.utils.tensor_utils\<close>,
  which is not among the sources. The class docstring says that an unbatched input is a
  list or rank one tensor and a batched one a list of lists or rank two tensor; the function
  returns the input as a ragged batch and whether it was unbatched (a batch of one row is
  made of it, which \<^verbatim>\<open>call\<close> squeezes away again at its end).
\<close>

definition convert_to_ragged_batch :: "'a tokens \<Rightarrow> 'a list list \<times> bool" where
  "convert_to_ragged_batch inputs = (rows inputs, \<not> is_batched inputs)"

text \<open>
  \<^verbatim>\<open>self.StaticHashTable.lookup\<close>: the table \<^verbatim>\<open>__init__\<close> builds maps every element of
  \<^verbatim>\<open>skip_list\<close> to \<^verbatim>\<open>True\<close>, with default value \<^verbatim>\<open>False\<close>.
\<close>

definition StaticHashTable_lookup :: "'a list \<Rightarrow> 'a \<Rightarrow> bool" where
  "StaticHashTable_lookup ks x =
     (case map_of (zip ks (replicate (length ks) True)) x of Some v \<Rightarrow> v | None \<Rightarrow> False)"

text \<open>
  The \<^verbatim>\<open>if self.skip_list: ... elif self.skip_fn: ... elif self.skip_py_fn:\<close> chain of
  \<^verbatim>\<open>call\<close> (lines 175--196). Python's truth value of a list is whether it is non-empty, of
  a function always true. The result is \<^verbatim>\<open>None\<close> when no branch is taken.
\<close>

definition skip_masks_of :: "'a RandomSwap \<Rightarrow> 'a list list \<Rightarrow> bool list list option" where
  "skip_masks_of self inputs =
     (if skip_list self \<noteq> None \<and> the (skip_list self) \<noteq> []
        then Some (map (map (StaticHashTable_lookup (the (skip_list self)))) inputs)
      else if skip_fn self \<noteq> None
        then Some (map (map (the (skip_fn self))) inputs)
      else if skip_py_fn self \<noteq> None
        then Some (map (map (the (skip_py_fn self))) inputs)
      else None)"

text \<open>\<^verbatim>\<open>tf.ragged.boolean_mask\<close> on one row: the elements whose mask is true, in order.\<close>

definition boolean_mask :: "'b list \<Rightarrow> bool list \<Rightarrow> 'b list" where
  "boolean_mask xs ms = map fst (filter snd (zip xs ms))"

text \<open>
  Lines 198--205: \<^verbatim>\<open>tf.ragged.range(inputs.row_lengths())\<close>, masked by the negated skip
  masks when there are any.
\<close>

definition positions_of :: "'a RandomSwap \<Rightarrow> 'a list list \<Rightarrow> nat list list" where
  "positions_of self inputs =
     (let positions = map (\<lambda>r. [0..<length r]) inputs in
      case skip_masks_of self inputs of
        None \<Rightarrow> positions
      | Some skip_masks \<Rightarrow> map2 boolean_mask positions (map (map Not) skip_masks))"

text \<open>
  The random primitives of TensorFlow are parameters of the model:
  \<^item> \<open>binomial sd i counts probs\<close> is the \<open>i\<close>-th element of what
    \<^verbatim>\<open>tf.random.stateless_binomial\<close> draws from the seed \<open>sd\<close>;
  \<^item> \<open>bits sd\<close> are the two raw random numbers behind
    \<^verbatim>\<open>tf.random.stateless_uniform(shape=[2], ...)\<close> for the seed \<open>sd\<close>.
  An integer \<^verbatim>\<open>stateless_uniform\<close> reduces the raw numbers into
  \<^verbatim>\<open>[minval, maxval)\<close> and refuses an empty range. Every pair of indices below
  \<^verbatim>\<open>maxval\<close> is the outcome for some raw numbers, so a statement about every backend is
  one about every outcome of the draws.
\<close>

record backend =
  binomial :: "stateless_seed \<Rightarrow> nat \<Rightarrow> real \<Rightarrow> real \<Rightarrow> int"
  bits :: "stateless_seed \<Rightarrow> nat \<times> nat"

definition stateless_uniform :: "backend \<Rightarrow> stateless_seed \<Rightarrow> nat \<Rightarrow> tf_error + nat \<times> nat" where
  "stateless_uniform bk sd maxval =
     (if maxval = 0 then Inl Invalid_range
      else Inr (fst (bits bk sd) mod maxval, snd (bits bk sd) mod maxval))"

text \<open>Reading a tensor at an index: an index outside the tensor is an error.\<close>

definition read_at :: "'b list \<Rightarrow> nat \<Rightarrow> tf_error + 'b" where
  "read_at xs i = (if i < length xs then Inr (xs ! i) else Inl Index_out_of_range)"

text \<open>
  \<^verbatim>\<open>tf.tensor_scatter_nd_update(inputs, [[index1], [index2]], [v1, v2])\<close>: both positions
  are written; an index outside the tensor is an error.
\<close>

definition tensor_scatter_nd_update ::
  "'b list \<Rightarrow> nat \<Rightarrow> nat \<Rightarrow> 'b \<Rightarrow> 'b \<Rightarrow> tf_error + 'b list" where
  "tensor_scatter_nd_update xs index1 index2 v1 v2 =
     (if index1 < length xs \<and> index2 < length xs then Inr (xs[index1 := v1, index2 := v2])
      else Inl Index_out_of_range)"

text \<open>
  One iteration of the loop of \<^verbatim>\<open>_swap\<close> (lines 224--237): draw two indices into
  \<^verbatim>\<open>positions\<close>, read the two positions, exchange the two tokens.
\<close>

definition swap_once ::
  "backend \<Rightarrow> generator \<Rightarrow> nat list \<Rightarrow> 'a list \<Rightarrow> tf_error + 'a list \<times> generator" where
  "swap_once bk g positions inputs =
     (let (sd, g') = make_seeds g in
      case stateless_uniform bk sd (length positions) of
        Inl e \<Rightarrow> Inl e
      | Inr (i0, i1) \<Rightarrow>
      (case read_at positions i0 of Inl e \<Rightarrow> Inl e | Inr index1 \<Rightarrow>
      (case read_at positions i1 of Inl e \<Rightarrow> Inl e | Inr index2 \<Rightarrow>
      (case read_at inputs index2 of Inl e \<Rightarrow> Inl e | Inr v1 \<Rightarrow>
      (case read_at inputs index1 of Inl e \<Rightarrow> Inl e | Inr v2 \<Rightarrow>
      (case tensor_scatter_nd_update inputs index1 index2 v1 v2 of
         Inl e \<Rightarrow> Inl e
       | Inr inputs' \<Rightarrow> Inr (inputs', g')))))))"

text \<open>
  \<^verbatim>\<open>_swap\<close> (lines 221--238): \<^verbatim>\<open>for _ in range(num_to_select)\<close>, the count of
  iterations still to run as the last argument.
\<close>

fun swap :: "backend \<Rightarrow> generator \<Rightarrow> nat list \<Rightarrow> 'a list \<Rightarrow> nat \<Rightarrow> tf_error + 'a list \<times> generator" where
  "swap bk g positions inputs 0 = Inr (inputs, g)"
| "swap bk g positions inputs (Suc n) =
     (case swap_once bk g positions inputs of
        Inl e \<Rightarrow> Inl e
      | Inr (inputs', g') \<Rightarrow> swap bk g' positions inputs' n)"

text \<open>
  \<^verbatim>\<open>tf.map_fn(_swap, (positions, inputs, num_to_select))\<close>: the rows in order, each with its
  own positions and count; the generator's state goes from one row to the next. Python's
  \<^verbatim>\<open>range(n)\<close> is empty for a negative \<open>n\<close>.
\<close>

fun map_fn_swap ::
  "backend \<Rightarrow> generator \<Rightarrow> (nat list \<times> 'a list \<times> int) list \<Rightarrow> tf_error + 'a list list \<times> generator" where
  "map_fn_swap bk g [] = Inr ([], g)"
| "map_fn_swap bk g ((positions, inputs, num_to_select) # xs) =
     (case swap bk g positions inputs (nat num_to_select) of
        Inl e \<Rightarrow> Inl e
      | Inr (r, g') \<Rightarrow>
          (case map_fn_swap bk g' xs of
             Inl e \<Rightarrow> Inl e
           | Inr (rs, g'') \<Rightarrow> Inr (r # rs, g'')))"

text \<open>
  Lines 207--219: how many swaps each row gets. The binomial draw is capped by
  \<^verbatim>\<open>max_swaps\<close> when that is given, then by the number of candidate positions of the row.
\<close>

definition num_to_select_of ::
  "backend \<Rightarrow> 'a RandomSwap \<Rightarrow> stateless_seed \<Rightarrow> nat list list \<Rightarrow> int list" where
  "num_to_select_of bk self sd positions =
     map (\<lambda>(i, p).
        let token_count = real (length p);
            n = binomial bk sd i token_count (rate self);
            n = (case max_swaps self of None \<Rightarrow> n | Some m \<Rightarrow> min n m)
        in min n (int (length p)))
       (zip [0..<length positions] positions)"

text \<open>
  \<^verbatim>\<open>RandomSwap.call\<close> (lines 172--251). The result is the output and the layer with its
  generator advanced.
\<close>

definition RandomSwap_call ::
  "backend \<Rightarrow> 'a RandomSwap \<Rightarrow> 'a tokens \<Rightarrow> tf_error + 'a tokens \<times> 'a RandomSwap" where
  "RandomSwap_call bk self inputs0 =
     (let (inputs, unbatched) = convert_to_ragged_batch inputs0;
          positions = positions_of self inputs;
          (sd, g) = make_seeds (generator self);
          num_to_select = num_to_select_of bk self sd positions
      in case map_fn_swap bk g (zip positions (zip inputs num_to_select)) of
           Inl e \<Rightarrow> Inl e
         | Inr (swapped, g') \<Rightarrow>
             Inr (if unbatched then Unbatched (hd swapped) else Batched swapped,
                  self\<lparr>generator := g'\<rparr>))"

subsection \<open>A concrete layer and backend\<close>

text \<open>
  A backend whose binomial draw is always 5 and whose raw random numbers are read off the
  seed's counter, and a layer with \<^verbatim>\<open>rate=0.4, max_swaps=2, skip_list=[30], seed=42\<close>.
\<close>

definition example_backend :: backend where
  "example_backend = \<lparr>binomial = (\<lambda>sd i c p. 5), bits = (\<lambda>(k, c). (c, c + 2))\<rparr>"

definition example_layer :: "nat RandomSwap" where
  "example_layer = \<lparr>rate = 2/5, max_swaps = Some 2, seed = 42, generator = from_seed 42,
     skip_list = Some [30], skip_fn = None, skip_py_fn = None\<rparr>"

section \<open>The decoding loop of the samplers\<close>

text \<open>
  Modelled from the spec: the samplers' shared call (\<^verbatim>\<open>keras_nlp/samplers/sampler.py\<close>,
  \<^verbatim>\<open>top_p_sampler.py\<close>, \<^verbatim>\<open>contrastive_sampler.py\<close>) is not among the sources; only the
  two test files are. What follows is the ``Decoding Loop Controller'' of the spec
  (section 4.1), generic in the caller's next-token function and in the selection policy:
  \<^item> the next-token function is pure, \<open>(prompt, cache, index) \<rightarrow> (logits, hidden_states, cache')\<close>;
  \<^item> the policy turns the logits (and hidden states) of a step into one token id per batch
    row. It is given the step, the buffer and the cache as well and may return a new cache,
    which covers the Top-P policy (whose random draw depends on seed and step) and the
    Contrastive one (which looks ahead and carries the chosen candidate's state on);
  \<^item> the cache is opaque to the loop.
  A token id is a natural number, the prompt buffer a list of rows.
\<close>

type_synonym ('c, 'l, 'h) next_fn = "nat list list \<Rightarrow> 'c \<Rightarrow> nat \<Rightarrow> 'l \<times> 'h \<times> 'c"

type_synonym ('c, 'l, 'h) policy =
  "nat \<Rightarrow> nat list list \<Rightarrow> 'l \<Rightarrow> 'h \<Rightarrow> 'c \<Rightarrow> (nat \<Rightarrow> nat) \<times> 'c"

text \<open>
  Modelled from the spec: the mutable decode state of section 3, ``a growing token buffer,
  an opaque key-value cache'', the per-row done mask and the position of the next token.
\<close>

record 'c decode_state =
  buffer :: "nat list list"
  cache :: 'c
  done_mask :: "bool list"
  step :: nat

text \<open>
  Modelled from the spec: ``\<^verbatim>\<open>length\<close> == prompt buffer's last dimension'' (section 3).
\<close>

definition max_length :: "nat list list \<Rightarrow> nat" where
  "max_length prompt = (case prompt of [] \<Rightarrow> 0 | row # _ \<Rightarrow> length row)"

text \<open>
  Modelled from the spec, step 3 of section 4.1: ``For rows already marked done, keep the
  existing value at position \<^verbatim>\<open>step\<close> unchanged; for others, write \<^verbatim>\<open>next_token\<close> at
  position \<^verbatim>\<open>step\<close>'', as the masked select \<^verbatim>\<open>done ? old_value : new_value\<close> of section 9.
\<close>

definition masked_write :: "bool list \<Rightarrow> (nat \<Rightarrow> nat) \<Rightarrow> nat \<Rightarrow> nat list list \<Rightarrow> nat list list" where
  "masked_write dn next_token s buf =
     map (\<lambda>(r, row). if dn ! r then row else row[s := next_token r]) (zip [0..<length buf] buf)"

text \<open>
  Modelled from the spec, step 4 of section 4.1: ``If \<^verbatim>\<open>stop_token_ids\<close> given, mark rows
  done whose \<^verbatim>\<open>next_token\<close> is in the set''; the mask ``never reverts'' (section 3).
\<close>

definition mark_done :: "nat list option \<Rightarrow> (nat \<Rightarrow> nat) \<Rightarrow> bool list \<Rightarrow> bool list" where
  "mark_done stop_token_ids next_token dn =
     (case stop_token_ids of
        None \<Rightarrow> dn
      | Some ids \<Rightarrow> map (\<lambda>(r, d). d \<or> next_token r \<in> set ids) (zip [0..<length dn] dn))"

text \<open>
  Modelled from the spec, steps 1 and 2 of section 4.1: call the next-token function on the
  current buffer, cache and step, and apply the policy to what it returns.
\<close>

definition select_next ::
  "('c, 'l, 'h) next_fn \<Rightarrow> ('c, 'l, 'h) policy \<Rightarrow> 'c decode_state \<Rightarrow> (nat \<Rightarrow> nat) \<times> 'c" where
  "select_next next_fn select st =
     (let (logits, hidden_states, c) = next_fn (buffer st) (cache st) (step st)
      in select (step st) (buffer st) logits hidden_states c)"

text \<open>Modelled from the spec: one step of the loop, steps 1 to 4 of section 4.1.\<close>

definition body ::
  "('c, 'l, 'h) next_fn \<Rightarrow> ('c, 'l, 'h) policy \<Rightarrow> nat list option \<Rightarrow> 'c decode_state \<Rightarrow> 'c decode_state" where
  "body next_fn select stop_token_ids st =
     (let (next_token, c) = select_next next_fn select st
      in \<lparr>buffer = masked_write (done_mask st) next_token (step st) (buffer st),
          cache = c,
          done_mask = mark_done stop_token_ids next_token (done_mask st),
          step = Suc (step st)\<rparr>)"

text \<open>
  Modelled from the spec: ``for each step from \<^verbatim>\<open>index\<close> to \<^verbatim>\<open>length - 1\<close>'', with step 5,
  ``If every row is done, terminate early''.
\<close>

function decode_loop ::
  "('c, 'l, 'h) next_fn \<Rightarrow> ('c, 'l, 'h) policy \<Rightarrow> nat list option \<Rightarrow> nat \<Rightarrow>
   'c decode_state \<Rightarrow> 'c decode_state" where
  "decode_loop next_fn select stop_token_ids n st =
     (if step st < n then
        (if list_all id (done_mask (body next_fn select stop_token_ids st))
         then body next_fn select stop_token_ids st
         else decode_loop next_fn select stop_token_ids n (body next_fn select stop_token_ids st))
      else st)"
  by pat_completeness auto
termination
  by (relation "measure (\<lambda>(next_fn, select, stop_token_ids, n, st). n - step st)")
    (auto simp: body_def split_beta)

declare decode_loop.simps [simp del]

text \<open>
  Modelled from the spec: the contract
  \<^verbatim>\<open>run(next_fn, prompt, cache, index, stop_token_ids) -> final_prompt\<close> of section 4.1. The
  done mask is ``initialized false''.
\<close>

definition run ::
  "('c, 'l, 'h) next_fn \<Rightarrow> ('c, 'l, 'h) policy \<Rightarrow> nat list list \<Rightarrow> 'c \<Rightarrow> nat \<Rightarrow>
   nat list option \<Rightarrow> nat list list" where
  "run next_fn select prompt cache0 index stop_token_ids =
     buffer (decode_loop next_fn select stop_token_ids (max_length prompt)
       \<lparr>buffer = prompt, cache = cache0,
        done_mask = replicate (length prompt) False, step = index\<rparr>)"

text \<open>
  The state at the head of the \<open>k\<close>-th iteration of a call, and whether the loop gets
  there: the position is inside the buffer and no earlier iteration ended with every row
  done.
\<close>

primrec state_at ::
  "('c, 'l, 'h) next_fn \<Rightarrow> ('c, 'l, 'h) policy \<Rightarrow> nat list list \<Rightarrow> 'c \<Rightarrow> nat \<Rightarrow>
   nat list option \<Rightarrow> nat \<Rightarrow> 'c decode_state" where
  "state_at next_fn select prompt cache0 index stop_token_ids 0 =
     \<lparr>buffer = prompt, cache = cache0,
      done_mask = replicate (length prompt) False, step = index\<rparr>"
| "state_at next_fn select prompt cache0 index stop_token_ids (Suc k) =
     body next_fn select stop_token_ids
       (state_at next_fn select prompt cache0 index stop_token_ids k)"

definition runs_iteration ::
  "('c, 'l, 'h) next_fn \<Rightarrow> ('c, 'l, 'h) policy \<Rightarrow> nat list list \<Rightarrow> 'c \<Rightarrow> nat \<Rightarrow>
   nat list option \<Rightarrow> nat \<Rightarrow> bool" where
  "runs_iteration next_fn select prompt cache0 index stop_token_ids k \<longleftrightarrow>
     index + k < max_length prompt \<and>
     list_all (\<lambda>j. \<not> list_all id
        (done_mask (state_at next_fn select prompt cache0 index stop_token_ids (Suc j)))) [0..<k]"

subsection \<open>The tests' alphabet and next-token functions\<close>

text \<open>
  From \<^verbatim>\<open>setUp\<close> of both test files: the lowercase letters as token ids 0 to 25
  (\<^verbatim>\<open>char_lookup\<close>, a dictionary whose keys are the lowercase letters; it is applied to
  lowercase letters only), batch size 1, vocabulary size 26.
\<close>

definition char_lookup :: "char \<Rightarrow> nat" where
  "char_lookup c = of_char c - of_char CHR ''a''"

definition vocab_size :: nat where
  "vocab_size = 26"

definition batch_size :: nat where
  "batch_size = 1"

text \<open>
  \<^verbatim>\<open>ops.one_hot(i, n)\<close> for one row. The logits of the tests are floats with the two
  values 0 and 1e9 only; they are kept as integers, which hold both exactly.
\<close>

definition one_hot :: "nat \<Rightarrow> nat \<Rightarrow> int list" where
  "one_hot i n = map (\<lambda>j. if j = i then 1 else 0) [0..<n]"

text \<open>
  \<^verbatim>\<open>next\<close> of \<^verbatim>\<open>TopPSamplerTest.setUp\<close> (lines 42--47): the logits favour the character of
  the cache at the position asked for (\<^verbatim>\<open>cache[:, index]\<close>, read inside the cache in every
  run below); the hidden states are all ones.
\<close>

definition next_from_cache :: "(nat list list, int list list, int list list) next_fn" where
  "next_from_cache prompt c index =
     (map (\<lambda>row. map (\<lambda>x. x * 10 ^ 9) (one_hot (row ! index) vocab_size)) c,
      replicate batch_size (replicate 5 1),
      c)"

text \<open>
  \<^verbatim>\<open>next\<close> of \<^verbatim>\<open>test_stateless_call\<close> (lines 57--68): the logits favour token 0 whatever the
  cache is.
\<close>

definition next_first_token :: "('c, int list list, int list list) next_fn" where
  "next_first_token prompt c index =
     (replicate batch_size (map (\<lambda>x. x * 10 ^ 9) (one_hot 0 vocab_size)),
      replicate batch_size (replicate 5 1),
      c)"

text \<open>
  A deterministic policy for concrete runs: in every row the id of the first largest
  logit. On logits that favour one token overwhelmingly the spec (section 8, ``Determinism
  under fixed logits'') has both samplers' policies select that token.
\<close>

fun argmax :: "int list \<Rightarrow> nat" where
  "argmax [] = 0"
| "argmax (x # xs) = (if list_all (\<lambda>y. y \<le> x) xs then 0 else Suc (argmax xs))"

definition greedy :: "('c, int list list, 'h) policy" where
  "greedy s buf logits hidden_states c = (\<lambda>r. argmax (logits ! r), c)"

text \<open>
  The prompt and cache of \<^verbatim>\<open>test_stateful_call\<close> and \<^verbatim>\<open>test_early_stopping\<close> of the Top-P
  test: \<^verbatim>\<open>ops.full((batch_size, length), char_lookup["z"])\<close> with length 12, and the ids
  of the characters of ``sequentially''.
\<close>

definition prompt_z :: "nat list list" where
  "prompt_z = replicate batch_size (replicate 12 (char_lookup CHR ''z''))"

definition cache_sequentially :: "nat list list" where
  "cache_sequentially = [map char_lookup ''sequentially'']"

section \<open>Properties of RandomSwap\<close>

lemma count_given_cases:
  "count_None sl sf spf < 2 \<longleftrightarrow> 2 \<le> count_given sl sf spf"
  by (simp add: count_None_def count_given_def)

text \<open>
  Claim C9, as stated: construction raises a \<^verbatim>\<open>ValueError\<close> exactly when at least two of
  \<^verbatim>\<open>skip_list\<close>, \<^verbatim>\<open>skip_fn\<close>, \<^verbatim>\<open>skip_py_fn\<close> are given. It fails: with
  \<^verbatim>\<open>max_swaps=-1\<close> and none of the three given, the constructor raises the
  \<^verbatim>\<open>ValueError\<close> of its \<^verbatim>\<open>max_swaps\<close> check (lines 151--155).
\<close>

theorem RandomSwap_init_claim_counterexample:
  "raises_ValueError (RandomSwap_init example_library (1/2) (Some (- 1))
          None None None (Some 42) ''int32'') \<and>
   \<not> 2 \<le> count_given (None :: int list option) None None"
  by (simp add: RandomSwap_init_def raises_ValueError_def example_library_def
      count_given_def count_None_def)

text \<open>The outcome of the constructor once the earlier statements have passed.\<close>

lemma RandomSwap_init_after_earlier:
  assumes "earlier_steps_pass lib ms sd dt"
  shows "\<exists>s. RandomSwap_init lib r ms sl sf spf sd dt =
     (if 2 \<le> count_given sl sf spf then Inl Skip_args_error
      else if sl \<noteq> None \<and> the sl \<noteq> [] then
        (case hash_table lib (the sl) of
           Some e \<Rightarrow> Inl (Library_error Hash_table e)
         | None \<Rightarrow> Inr \<lparr>rate = r, max_swaps = ms, seed = s, generator = from_seed s,
                         skip_list = sl, skip_fn = sf, skip_py_fn = spf\<rparr>)
      else Inr \<lparr>rate = r, max_swaps = ms, seed = s, generator = from_seed s,
                skip_list = sl, skip_fn = sf, skip_py_fn = spf\<rparr>)"
proof -
  from assms obtain s where s: "(case sd of None \<Rightarrow> randint lib | Some v \<Rightarrow> Inr v) = Inr s"
    and g: "generator_from_seed lib s = None"
    and d: "\<not> (\<not> is_int_dtype lib dt \<and> \<not> is_string_dtype lib dt)"
    and b: "super_init lib dt = None"
    and m: "\<not> (ms \<noteq> None \<and> the ms < 0)"
    unfolding earlier_steps_pass_def by (auto split: sum.splits)
  have "RandomSwap_init lib r ms sl sf spf sd dt =
     (if 2 \<le> count_given sl sf spf then Inl Skip_args_error
      else if sl \<noteq> None \<and> the sl \<noteq> [] then
        (case hash_table lib (the sl) of
           Some e \<Rightarrow> Inl (Library_error Hash_table e)
         | None \<Rightarrow> Inr \<lparr>rate = r, max_swaps = ms, seed = s, generator = from_seed s,
                         skip_list = sl, skip_fn = sf, skip_py_fn = spf\<rparr>)
      else Inr \<lparr>rate = r, max_swaps = ms, seed = s, generator = from_seed s,
                skip_list = sl, skip_fn = sf, skip_py_fn = spf\<rparr>)"
    unfolding RandomSwap_init_def
    by (simp only: d b m s g count_given_cases Let_def if_False option.case sum.case)
  then show ?thesis ..
qed

lemma RandomSwap_init_before_earlier:
  assumes "\<not> earlier_steps_pass lib ms sd dt"
  shows "isl (RandomSwap_init lib r ms sl sf spf sd dt) \<and>
     RandomSwap_init lib r ms sl sf spf sd dt \<noteq> Inl Skip_args_error"
proof (cases "is_int_dtype lib dt \<or> is_string_dtype lib dt")
  case False
  then show ?thesis by (simp add: RandomSwap_init_def)
next
  case d: True
  show ?thesis
  proof (cases "super_init lib dt")
    case (Some e)
    with d show ?thesis by (auto simp: RandomSwap_init_def)
  next
    case b: None
    show ?thesis
    proof (cases "case sd of None \<Rightarrow> randint lib | Some v \<Rightarrow> Inr v")
      case (Inl e)
      with d b show ?thesis by (auto simp: RandomSwap_init_def)
    next
      case (Inr s)
      show ?thesis
      proof (cases "generator_from_seed lib s")
        case (Some e)
        with d b Inr show ?thesis by (auto simp: RandomSwap_init_def)
      next
        case None
        with assms d b Inr have "ms \<noteq> None \<and> the ms < 0"
          by (auto simp: earlier_steps_pass_def)
        with d b Inr None show ?thesis by (auto simp: RandomSwap_init_def)
      qed
    qed
  qed
qed

lemma RandomSwap_init_skip_args_error:
  "RandomSwap_init lib r ms sl sf spf sd dt = Inl Skip_args_error \<longleftrightarrow>
     earlier_steps_pass lib ms sd dt \<and> 2 \<le> count_given sl sf spf"
proof (cases "earlier_steps_pass lib ms sd dt")
  case True
  from RandomSwap_init_after_earlier [OF this, of r sl sf spf]
  show ?thesis using True by (auto split: if_splits option.splits)
next
  case False
  from RandomSwap_init_before_earlier [OF this, of r sl sf spf]
  show ?thesis using False by simp
qed

lemma RandomSwap_init_raises:
  "isl (RandomSwap_init lib r ms sl sf spf sd dt) \<longleftrightarrow>
     2 \<le> count_given sl sf spf \<or> \<not> earlier_steps_pass lib ms sd dt \<or>
     \<not> hash_table_builds lib sl"
proof (cases "earlier_steps_pass lib ms sd dt")
  case True
  from RandomSwap_init_after_earlier [OF this, of r sl sf spf]
  show ?thesis using True
    by (auto simp: hash_table_builds_def split: if_splits option.splits)
next
  case False
  from RandomSwap_init_before_earlier [OF this, of r sl sf spf]
  show ?thesis using False by simp
qed

lemma RandomSwap_init_ValueError:
  "earlier_steps_pass lib ms sd dt \<Longrightarrow> hash_table_builds lib sl \<Longrightarrow>
   raises_ValueError (RandomSwap_init lib r ms sl sf spf sd dt) \<longleftrightarrow>
     2 \<le> count_given sl sf spf"
  using RandomSwap_init_after_earlier [of lib ms sd dt r sl sf spf]
  by (auto simp: hash_table_builds_def raises_ValueError_def split: if_splits option.splits)

text \<open>
  Claim C9, amended. Let the statements before the check of the skip arguments pass (the
  dtype check, the base class constructor, the seed and the generator, the
  \<^verbatim>\<open>max_swaps\<close> check), and let the hash table of a non-empty skip list be built without
  an error. Then construction raises a \<^verbatim>\<open>ValueError\<close> exactly when at least two of
  \<^verbatim>\<open>skip_list\<close>, \<^verbatim>\<open>skip_fn\<close>, \<^verbatim>\<open>skip_py_fn\<close> are given; in particular, constructing
  with none of the three given succeeds, whatever the message of the error says.
  Without these provisos: the error of the skip arguments' check (``Exactly one of ...
  must be provided'') is raised exactly when at least two of them are given and the
  earlier statements passed, and construction fails at all exactly when at least two are
  given, or an earlier statement fails, or the hash table cannot be built.
\<close>

theorem RandomSwap_init_raises_iff:
  "(earlier_steps_pass lib ms sd dt \<and> hash_table_builds lib sl \<longrightarrow>
      (raises_ValueError (RandomSwap_init lib r ms sl sf spf sd dt) \<longleftrightarrow>
         2 \<le> count_given sl sf spf)) \<and>
   (earlier_steps_pass lib ms sd dt \<longrightarrow>
      \<not> isl (RandomSwap_init lib r ms None None None sd dt)) \<and>
   (RandomSwap_init lib r ms sl sf spf sd dt = Inl Skip_args_error \<longleftrightarrow>
      earlier_steps_pass lib ms sd dt \<and> 2 \<le> count_given sl sf spf) \<and>
   (isl (RandomSwap_init lib r ms sl sf spf sd dt) \<longleftrightarrow>
      2 \<le> count_given sl sf spf \<or> \<not> earlier_steps_pass lib ms sd dt \<or>
      \<not> hash_table_builds lib sl)"
proof -
  have none: "\<not> isl (RandomSwap_init lib r ms None None None sd dt)"
    if "earlier_steps_pass lib ms sd dt"
    using that RandomSwap_init_raises [of lib r ms None None None sd dt]
    by (simp add: count_given_def hash_table_builds_def)
  show ?thesis
    using RandomSwap_init_ValueError [of lib ms sd dt sl r sf spf]
      RandomSwap_init_skip_args_error [of lib r ms sl sf spf sd dt]
      RandomSwap_init_raises [of lib r ms sl sf spf sd dt] none
    by blast
qed

text \<open>
  Three constructions with the concrete library, all with a valid dtype and without
  \<^verbatim>\<open>max_swaps\<close>: with no skip argument the layer is built; with a skip list and a skip
  function the error of the skip arguments' check is raised; with the skip list
  \<^verbatim>\<open>[2**70]\<close> alone the table cannot be built and the constructor fails although only
  one skip argument is given.
\<close>

theorem RandomSwap_init_witness:
  "earlier_steps_pass example_library None (Some 42) ''int32'' \<and>
   hash_table_builds example_library (Some [1]) \<and>
   \<not> hash_table_builds example_library (Some [2 ^ 70]) \<and>
   \<not> isl (RandomSwap_init example_library (2/5) None None None None (Some 42) ''int32'') \<and>
   \<not> raises_ValueError
       (RandomSwap_init example_library (2/5) None (Some [1]) None None (Some 42) ''int32'') \<and>
   RandomSwap_init example_library (2/5) None (Some [1]) (Some (\<lambda>t. t = 0)) None
       (Some 42) ''int32'' = Inl Skip_args_error \<and>
   isl (RandomSwap_init example_library (2/5) None (Some [2 ^ 70]) None None (Some 42) ''int32'')"
proof -
  have e: "earlier_steps_pass example_library None (Some 42) ''int32''"
    by (simp add: earlier_steps_pass_def example_library_def)
  have h1: "hash_table_builds example_library (Some [1])"
    by (simp add: hash_table_builds_def example_library_def)
  have h2: "\<not> hash_table_builds example_library (Some [2 ^ 70])"
    by (simp add: hash_table_builds_def example_library_def)
  have c0: "count_given (None :: int list option) None None = 0"
    and c1: "count_given (Some [1::int]) None None = 1"
    and c1': "count_given (Some [2 ^ 70::int]) None None = 1"
    and c2: "count_given (Some [1::int]) (Some (\<lambda>t. t = 0)) None = 2"
    by (simp_all add: count_given_def)
  note t = RandomSwap_init_raises_iff [where lib = example_library and r = "2/5"
      and ms = None and sd = "Some 42" and dt = "''int32''"]
  have "\<not> isl (RandomSwap_init example_library (2/5) None None None None (Some 42) ''int32'')"
    using t [of None None None] e by blast
  moreover have "\<not> raises_ValueError
       (RandomSwap_init example_library (2/5) None (Some [1]) None None (Some 42) ''int32'')"
    using t [of "Some [1]" None None] e h1 c1 by simp
  moreover have "RandomSwap_init example_library (2/5) None (Some [1]) (Some (\<lambda>t. t = 0)) None
       (Some 42) ''int32'' = Inl Skip_args_error"
    using t [of "Some [1]" "Some (\<lambda>t. t = 0)" None] e c2 by simp
  moreover have "isl (RandomSwap_init example_library (2/5) None (Some [2 ^ 70]) None None
       (Some 42) ''int32'')"
    using t [of "Some [2 ^ 70]" None None] h2 by blast
  ultimately show ?thesis using e h1 h2 by blast
qed

lemma set_boolean_mask: "set (boolean_mask xs ms) \<subseteq> set xs"
  by (auto simp: boolean_mask_def dest: set_zip_leftD)

lemma positions_of_ok:
  "list_all2 (\<lambda>p r. set p \<subseteq> {..<length r}) (positions_of self inputs) inputs"
proof (cases "skip_masks_of self inputs")
  case None
  then show ?thesis
    by (auto simp: positions_of_def list_all2_conv_all_nth)
next
  case (Some m)
  then have len: "length m = length inputs"
    by (auto simp: skip_masks_of_def split: if_splits)
  have "set (boolean_mask [0..<length (inputs ! i)] (map Not (m ! i))) \<subseteq> {..<length (inputs ! i)}"
    if "i < length inputs" for i
    using set_boolean_mask [of "[0..<length (inputs ! i)]" "map Not (m ! i)"] by auto
  with Some len show ?thesis
    by (simp add: positions_of_def list_all2_conv_all_nth)
qed

lemma num_to_select_of_ok:
  "list_all2 (\<lambda>n p. n \<le> int (length p)) (num_to_select_of bk self sd positions) positions"
  by (simp add: num_to_select_of_def list_all2_conv_all_nth Let_def)

lemma swap_once_ok:
  assumes "positions \<noteq> []" and "set positions \<subseteq> {..<length inputs}"
  shows "\<exists>out g'. swap_once bk g positions inputs = Inr (out, g') \<and>
           mset out = mset inputs \<and> length out = length inputs"
proof -
  let ?n = "length positions"
  let ?sd = "fst (make_seeds g)"
  let ?i0 = "fst (bits bk ?sd) mod ?n" and ?i1 = "snd (bits bk ?sd) mod ?n"
  from assms(1) have n: "0 < ?n" by simp
  then have i: "?i0 < ?n" "?i1 < ?n" by simp_all
  then have "positions ! ?i0 \<in> set positions" "positions ! ?i1 \<in> set positions"
    by simp_all
  with assms(2) have p: "positions ! ?i0 < length inputs" "positions ! ?i1 < length inputs"
    by auto
  have "swap_once bk g positions inputs =
      Inr (inputs[positions ! ?i0 := inputs ! (positions ! ?i1),
                  positions ! ?i1 := inputs ! (positions ! ?i0)], snd (make_seeds g))"
    using n i p
    by (simp add: swap_once_def stateless_uniform_def read_at_def
        tensor_scatter_nd_update_def split_beta)
  moreover have "mset (inputs[positions ! ?i0 := inputs ! (positions ! ?i1),
                  positions ! ?i1 := inputs ! (positions ! ?i0)]) = mset inputs"
    using p by (simp add: mset_swap)
  ultimately show ?thesis by simp
qed

lemma swap_ok:
  "n \<le> length positions \<Longrightarrow> set positions \<subseteq> {..<length inputs} \<Longrightarrow>
   \<exists>out g'. swap bk g positions inputs n = Inr (out, g') \<and>
           mset out = mset inputs \<and> length out = length inputs"
proof (induction n arbitrary: g inputs)
  case 0
  then show ?case by simp
next
  case (Suc n)
  then have "positions \<noteq> []" by auto
  from swap_once_ok [OF this Suc.prems(2), of bk g]
  obtain mid g1 where mid: "swap_once bk g positions inputs = Inr (mid, g1)"
    "mset mid = mset inputs" "length mid = length inputs" by blast
  from Suc.prems have "n \<le> length positions" "set positions \<subseteq> {..<length mid}"
    using mid(3) by simp_all
  from Suc.IH [OF this, of g1] mid show ?case by auto
qed

lemma map_fn_swap_ok:
  "list_all (\<lambda>(p, r, n). set p \<subseteq> {..<length r} \<and> n \<le> int (length p)) xs \<Longrightarrow>
   \<exists>outs g'. map_fn_swap bk g xs = Inr (outs, g') \<and>
     list_all2 (\<lambda>out r. mset out = mset r \<and> length out = length r) outs (map (\<lambda>x. fst (snd x)) xs)"
proof (induction xs arbitrary: g)
  case Nil
  then show ?case by simp
next
  case (Cons x xs)
  obtain p r n where x: "x = (p, r, n)" by (cases x)
  with Cons.prems have "nat n \<le> length p" "set p \<subseteq> {..<length r}" by auto
  from swap_ok [OF this, of bk g]
  obtain out g1 where out: "swap bk g p r (nat n) = Inr (out, g1)"
    "mset out = mset r" "length out = length r" by blast
  from Cons.prems have "list_all (\<lambda>(p, r, n). set p \<subseteq> {..<length r} \<and> n \<le> int (length p)) xs"
    by simp
  from Cons.IH [OF this, of g1]
  obtain outs g2 where "map_fn_swap bk g1 xs = Inr (outs, g2)"
    "list_all2 (\<lambda>out r. mset out = mset r \<and> length out = length r) outs (map (\<lambda>x. fst (snd x)) xs)"
    by blast
  with x out show ?case by simp
qed

text \<open>
  Claim C10: for every input, every layer configuration and every outcome of the random
  draws, \<^verbatim>\<open>RandomSwap.call\<close> returns (no TensorFlow operation fails), the output is
  batched exactly when the input is, it has as many rows as the input, and each of its
  rows has the length and the multiset of tokens of the corresponding input row.
\<close>

theorem RandomSwap_call_permutes_rows:
  "\<exists>out self'. RandomSwap_call bk self inputs = Inr (out, self') \<and>
     is_batched out = is_batched inputs \<and>
     list_all2 (\<lambda>out_row r. length out_row = length r \<and> mset out_row = mset r) (rows out) (rows inputs)"
proof -
  let ?rows = "rows inputs"
  let ?ps = "positions_of self ?rows"
  let ?sd = "fst (make_seeds (generator self))"
  let ?g = "snd (make_seeds (generator self))"
  let ?ns = "num_to_select_of bk self ?sd ?ps"
  let ?xs = "zip ?ps (zip ?rows ?ns)"
  have lp: "length ?ps = length ?rows"
    using positions_of_ok [of self ?rows] by (simp add: list_all2_lengthD)
  have ln: "length ?ns = length ?ps"
    using num_to_select_of_ok [of bk self ?sd ?ps] by (simp add: list_all2_lengthD)
  have "list_all (\<lambda>(p, r, n). set p \<subseteq> {..<length r} \<and> n \<le> int (length p)) ?xs"
    using positions_of_ok [of self ?rows] num_to_select_of_ok [of bk self ?sd ?ps] lp ln
    by (auto simp: list_all_length list_all2_conv_all_nth)
  from map_fn_swap_ok [OF this, of bk ?g]
  obtain outs g' where outs: "map_fn_swap bk ?g ?xs = Inr (outs, g')"
    "list_all2 (\<lambda>out r. mset out = mset r \<and> length out = length r) outs (map (\<lambda>x. fst (snd x)) ?xs)"
    by blast
  have "map (\<lambda>x. fst (snd x)) ?xs = ?rows"
    using lp ln by (simp add: list_eq_iff_nth_eq)
  with outs(2) have perm: "list_all2 (\<lambda>out r. mset out = mset r \<and> length out = length r) outs ?rows"
    by simp
  have call: "RandomSwap_call bk self inputs =
      Inr (if \<not> is_batched inputs then Unbatched (hd outs) else Batched outs, self\<lparr>generator := g'\<rparr>)"
    using outs(1) by (simp add: RandomSwap_call_def convert_to_ragged_batch_def split_beta)
  show ?thesis
  proof (cases inputs)
    case (Unbatched r)
    with perm obtain out where "outs = [out]"
      by (cases outs) (auto simp: list_all2_Cons2)
    with Unbatched perm call show ?thesis by simp
  next
    case (Batched rs)
    with perm call show ?thesis
      by (auto simp: list_all2_conv_all_nth)
  qed
qed

text \<open>The call on the concrete layer: token 30 is skipped, two swaps happen in the first row.\<close>

lemma RandomSwap_call_example:
  "map_sum id fst
     (RandomSwap_call example_backend example_layer (Batched [[10, 20, 30, 40], [50, 60]])) =
   Inr (Batched [[20, 40, 30, 10], [50, 60]])"
  by code_simp

section \<open>Properties of the decoding loop\<close>

subsection \<open>One step\<close>

lemma length_masked_write: "length (masked_write dn t s buf) = length buf"
  by (simp add: masked_write_def)

lemma masked_write_row:
  "r < length buf \<Longrightarrow>
   masked_write dn t s buf ! r = (if dn ! r then buf ! r else (buf ! r)[s := t r])"
  by (simp add: masked_write_def)

lemma map_length_masked_write: "map length (masked_write dn t s buf) = map length buf"
  by (rule nth_equalityI) (simp_all add: length_masked_write masked_write_row)

lemma length_mark_done: "length (mark_done stop t dn) = length dn"
  by (simp add: mark_done_def split: option.splits)

lemma mark_done_row:
  "r < length dn \<Longrightarrow>
   mark_done stop t dn ! r =
     (case stop of None \<Rightarrow> dn ! r | Some ids \<Rightarrow> dn ! r \<or> t r \<in> set ids)"
  by (simp add: mark_done_def split: option.splits)

lemma step_body: "step (body next_fn select stop st) = Suc (step st)"
  by (simp add: body_def split_beta)

lemma buffer_body:
  "buffer (body next_fn select stop st) =
     masked_write (done_mask st) (fst (select_next next_fn select st)) (step st) (buffer st)"
  by (simp add: body_def split_beta)

lemma done_mask_body:
  "done_mask (body next_fn select stop st) =
     mark_done stop (fst (select_next next_fn select st)) (done_mask st)"
  by (simp add: body_def split_beta)

lemma decode_loop_shape:
  "map length (buffer (decode_loop next_fn select stop n st)) = map length (buffer st)"
proof (induction next_fn select stop n st rule: decode_loop.induct)
  case (1 next_fn select stop n st)
  show ?case
  proof (cases "step st < n")
    case True
    with "1.IH" show ?thesis
      by (subst decode_loop.simps) (simp add: buffer_body map_length_masked_write)
  next
    case False
    then show ?thesis by (subst decode_loop.simps) simp
  qed
qed

lemma decode_loop_frame:
  "r < length (buffer st) \<Longrightarrow> i < step st \<or> n \<le> i \<Longrightarrow>
   buffer (decode_loop next_fn select stop n st) ! r ! i = buffer st ! r ! i"
proof (induction next_fn select stop n st rule: decode_loop.induct)
  case (1 next_fn select stop n st)
  show ?case
  proof (cases "step st < n")
    case True
    let ?st' = "body next_fn select stop st"
    from "1.prems" True have neq: "i \<noteq> step st" by auto
    have one: "buffer ?st' ! r ! i = buffer st ! r ! i"
      using "1.prems"(1) neq by (simp add: buffer_body masked_write_row)
    show ?thesis
    proof (cases "list_all id (done_mask ?st')")
      case True
      with \<open>step st < n\<close> one show ?thesis by (subst decode_loop.simps) simp
    next
      case False
      have "buffer (decode_loop next_fn select stop n ?st') ! r ! i = buffer ?st' ! r ! i"
        using "1.IH" [OF \<open>step st < n\<close> False] "1.prems"
        by (auto simp: buffer_body length_masked_write step_body)
      with \<open>step st < n\<close> False one show ?thesis by (subst decode_loop.simps) simp
    qed
  next
    case False
    then show ?thesis by (subst decode_loop.simps) simp
  qed
qed

lemma decode_loop_done_row:
  "r < length (buffer st) \<Longrightarrow> r < length (done_mask st) \<Longrightarrow> done_mask st ! r \<Longrightarrow>
   buffer (decode_loop next_fn select stop n st) ! r = buffer st ! r"
proof (induction next_fn select stop n st rule: decode_loop.induct)
  case (1 next_fn select stop n st)
  show ?case
  proof (cases "step st < n")
    case True
    let ?st' = "body next_fn select stop st"
    have one: "buffer ?st' ! r = buffer st ! r"
      using "1.prems" by (simp add: buffer_body masked_write_row)
    have dn: "done_mask ?st' ! r"
      using "1.prems" by (simp add: done_mask_body mark_done_row split: option.splits)
    show ?thesis
    proof (cases "list_all id (done_mask ?st')")
      case True
      with \<open>step st < n\<close> one show ?thesis by (subst decode_loop.simps) simp
    next
      case False
      have "buffer (decode_loop next_fn select stop n ?st') ! r = buffer ?st' ! r"
        using "1.IH" [OF \<open>step st < n\<close> False] "1.prems" dn
        by (simp add: buffer_body length_masked_write done_mask_body length_mark_done)
      with \<open>step st < n\<close> False one show ?thesis by (subst decode_loop.simps) simp
    qed
  next
    case False
    then show ?thesis by (subst decode_loop.simps) simp
  qed
qed

subsection \<open>The states of a call\<close>

lemma state_at_Suc:
  "state_at next_fn select prompt c0 index stop (Suc k) =
     body next_fn select stop (state_at next_fn select prompt c0 index stop k)"
  by simp

lemma state_at_0:
  "state_at next_fn select prompt c0 index stop 0 =
     \<lparr>buffer = prompt, cache = c0, done_mask = replicate (length prompt) False, step = index\<rparr>"
  by simp

lemma state_at_inv:
  "step (state_at next_fn select prompt c0 index stop k) = index + k \<and>
   length (buffer (state_at next_fn select prompt c0 index stop k)) = length prompt \<and>
   length (done_mask (state_at next_fn select prompt c0 index stop k)) = length prompt"
  by (induction k)
    (simp_all add: state_at_0 state_at_Suc step_body buffer_body done_mask_body
      length_masked_write length_mark_done)

lemma state_at_untouched:
  "r < length prompt \<Longrightarrow> index + k \<le> i \<Longrightarrow>
   buffer (state_at next_fn select prompt c0 index stop k) ! r ! i = prompt ! r ! i"
proof (induction k)
  case 0
  then show ?case by (simp add: state_at_0)
next
  case (Suc k)
  then show ?case
    using state_at_inv [of next_fn select prompt c0 index stop k]
    by (simp add: state_at_Suc buffer_body masked_write_row)
qed

lemma runs_iteration_Suc:
  "runs_iteration next_fn select prompt c0 index stop (Suc k) \<longleftrightarrow>
   runs_iteration next_fn select prompt c0 index stop k \<and>
   index + Suc k < max_length prompt \<and>
   \<not> list_all id (done_mask (state_at next_fn select prompt c0 index stop (Suc k)))"
  by (auto simp: runs_iteration_def)

lemma decode_loop_reaches:
  "runs_iteration next_fn select prompt c0 index stop k \<Longrightarrow>
   decode_loop next_fn select stop (max_length prompt) (state_at next_fn select prompt c0 index stop 0) =
   decode_loop next_fn select stop (max_length prompt) (state_at next_fn select prompt c0 index stop k)"
proof (induction k)
  case 0
  show ?case by simp
next
  case (Suc k)
  let ?st = "state_at next_fn select prompt c0 index stop k"
  from Suc.prems have r: "runs_iteration next_fn select prompt c0 index stop k"
    and nd: "\<not> list_all id (done_mask (body next_fn select stop ?st))"
    and lt: "index + k < max_length prompt"
    by (simp_all add: runs_iteration_Suc state_at_Suc)
  have "step ?st < max_length prompt"
    using lt state_at_inv [of next_fn select prompt c0 index stop k] by simp
  then have "decode_loop next_fn select stop (max_length prompt) ?st =
      decode_loop next_fn select stop (max_length prompt) (body next_fn select stop ?st)"
    using nd by (subst decode_loop.simps) simp
  with Suc.IH [OF r] show ?case by (simp add: state_at_Suc)
qed

lemma state_at_done_stays:
  "r < length prompt \<Longrightarrow> done_mask (state_at next_fn select prompt c0 index stop k) ! r \<Longrightarrow>
   done_mask (state_at next_fn select prompt c0 index stop (k + m)) ! r \<and>
   buffer (state_at next_fn select prompt c0 index stop (k + m)) ! r =
     buffer (state_at next_fn select prompt c0 index stop k) ! r"
proof (induction m)
  case 0
  then show ?case by simp
next
  case (Suc m)
  then show ?case
    using state_at_inv [of next_fn select prompt c0 index stop "k + m"]
    by (cases stop)
      (simp_all add: state_at_Suc buffer_body done_mask_body masked_write_row mark_done_row)
qed

subsection \<open>Shape and frame\<close>

text \<open>
  Claim C3: for every next-token function, policy (so for both samplers and every seed),
  prompt, index, cache and stop set, the buffer a call returns has the shape of the prompt
  (as many rows, each of the length it had), and every position outside
  \<open>[index, length)\<close> of every row, in particular every position before \<open>index\<close>, holds
  the value it held in the prompt.
\<close>

theorem run_shape_and_frame:
  "map length (run next_fn select prompt cache0 index stop) = map length prompt \<and>
   (\<forall>r i. r < length prompt \<and> (i < index \<or> max_length prompt \<le> i) \<longrightarrow>
      run next_fn select prompt cache0 index stop ! r ! i = prompt ! r ! i)"
  using decode_loop_shape [of next_fn select stop "max_length prompt"
      "\<lparr>buffer = prompt, cache = cache0, done_mask = replicate (length prompt) False, step = index\<rparr>"]
    decode_loop_frame [of _ "\<lparr>buffer = prompt, cache = cache0,
      done_mask = replicate (length prompt) False, step = index\<rparr>" _ "max_length prompt"
      next_fn select stop]
  by (simp add: run_def)

text \<open>
  The run of \<^verbatim>\<open>test_stateless_call\<close>: from index 5 on the all-\<open>z\<close> prompt, with logits that
  favour token 0, the result is ``zzzzzaaaaaaa''; position 4 is the prompt's.
\<close>

theorem run_shape_and_frame_witness:
  "(0::nat) < length prompt_z \<and> (4::nat) < 5 \<and>
   map length (run next_first_token greedy prompt_z () 5 None) = map length prompt_z \<and>
   run next_first_token greedy prompt_z () 5 None ! 0 ! 4 = prompt_z ! 0 ! 4 \<and>
   run next_first_token greedy prompt_z () 5 None = map (map char_lookup) [''zzzzzaaaaaaa'']"
proof -
  have len: "(0::nat) < length prompt_z" by (simp add: prompt_z_def batch_size_def)
  have ex: "run next_first_token greedy prompt_z () 5 None = map (map char_lookup) [''zzzzzaaaaaaa'']"
    by code_simp
  from run_shape_and_frame [of next_first_token greedy prompt_z "()" 5 None] len
  have "map length (run next_first_token greedy prompt_z () 5 None) = map length prompt_z"
    and "run next_first_token greedy prompt_z () 5 None ! 0 ! 4 = prompt_z ! 0 ! 4"
    by simp_all
  with len ex show ?thesis by simp
qed

subsection \<open>Early stopping\<close>

text \<open>
  Claim C2: let the loop of a call with stop tokens \<open>ids\<close> get to its \<open>k\<close>-th iteration,
  that is to step \<open>s = index + k\<close>, with row \<open>r\<close> not yet done, and let the token selected
  for the row there be one of \<open>ids\<close> (so the loop writes a stop token for the row at step
  \<open>s\<close>). Then the row is marked done after that iteration; it stays done, and its buffer
  row stays as it is, in every later state; the row of the returned buffer is the row as it
  was at step \<open>s\<close> with the stop token written at position \<open>s\<close>; and every position of the
  row after \<open>s\<close> holds in the returned buffer what the prompt held before the call.
\<close>

theorem run_early_stopping:
  assumes runs: "runs_iteration next_fn select prompt c0 index (Some ids) k"
    and r: "r < length prompt"
    and live: "\<not> done_mask (state_at next_fn select prompt c0 index (Some ids) k) ! r"
    and stop: "fst (select_next next_fn select
                 (state_at next_fn select prompt c0 index (Some ids) k)) r \<in> set ids"
  shows "done_mask (state_at next_fn select prompt c0 index (Some ids) (Suc k)) ! r \<and>
    (\<forall>m. done_mask (state_at next_fn select prompt c0 index (Some ids) (Suc k + m)) ! r \<and>
         buffer (state_at next_fn select prompt c0 index (Some ids) (Suc k + m)) ! r =
           buffer (state_at next_fn select prompt c0 index (Some ids) (Suc k)) ! r) \<and>
    run next_fn select prompt c0 index (Some ids) ! r =
      (buffer (state_at next_fn select prompt c0 index (Some ids) k) ! r)
        [index + k := fst (select_next next_fn select
                 (state_at next_fn select prompt c0 index (Some ids) k)) r] \<and>
    (\<forall>i. index + k < i \<longrightarrow>
       run next_fn select prompt c0 index (Some ids) ! r ! i = prompt ! r ! i)"
proof -
  let ?st = "state_at next_fn select prompt c0 index (Some ids) k"
  let ?st' = "state_at next_fn select prompt c0 index (Some ids) (Suc k)"
  let ?tok = "fst (select_next next_fn select ?st)"
  let ?n = "max_length prompt"
  note inv = state_at_inv [of next_fn select prompt c0 index "Some ids" k]
  note inv' = state_at_inv [of next_fn select prompt c0 index "Some ids" "Suc k"]
  have dn: "done_mask ?st' ! r"
    using r stop inv by (simp add: state_at_Suc done_mask_body mark_done_row)
  have row': "buffer ?st' ! r = (buffer ?st ! r)[index + k := ?tok r]"
    using r live inv by (simp add: state_at_Suc buffer_body masked_write_row)
  have lt: "step ?st < ?n"
    using runs inv by (simp add: runs_iteration_def)
  have "run next_fn select prompt c0 index (Some ids) =
      buffer (decode_loop next_fn select (Some ids) ?n ?st)"
    using decode_loop_reaches [OF runs] by (simp add: run_def state_at_0)
  also have "decode_loop next_fn select (Some ids) ?n ?st =
      (if list_all id (done_mask ?st') then ?st'
       else decode_loop next_fn select (Some ids) ?n ?st')"
    using lt by (subst decode_loop.simps) (simp add: state_at_Suc)
  also have "buffer \<dots> ! r = buffer ?st' ! r"
    using decode_loop_done_row [of r ?st' next_fn select "Some ids" ?n] r dn inv' by simp
  finally have final: "run next_fn select prompt c0 index (Some ids) ! r =
      (buffer ?st ! r)[index + k := ?tok r]"
    using row' by simp
  have "run next_fn select prompt c0 index (Some ids) ! r ! i = prompt ! r ! i"
    if "index + k < i" for i
    using that final state_at_untouched [of r prompt index k i next_fn select c0 "Some ids"] r
    by simp
  with dn final state_at_done_stays [OF r dn] show ?thesis by blast
qed


text \<open>
  The run of \<^verbatim>\<open>test_early_stopping\<close>: with the cache of ``sequentially'' and stop token
  \<open>t\<close>, the loop writes \<open>t\<close> at step 6 and the result is ``sequentzzzzz''.
\<close>

theorem run_early_stopping_witness:
  "runs_iteration next_from_cache greedy prompt_z cache_sequentially 0 (Some [char_lookup CHR ''t'']) 6 \<and>
   (0::nat) < length prompt_z \<and>
   \<not> done_mask (state_at next_from_cache greedy prompt_z cache_sequentially 0 (Some [char_lookup CHR ''t'']) 6) ! 0 \<and>
   fst (select_next next_from_cache greedy
      (state_at next_from_cache greedy prompt_z cache_sequentially 0 (Some [char_lookup CHR ''t'']) 6)) 0
     \<in> set [char_lookup CHR ''t''] \<and>
   done_mask (state_at next_from_cache greedy prompt_z cache_sequentially 0 (Some [char_lookup CHR ''t'']) 7) ! 0 \<and>
   run next_from_cache greedy prompt_z cache_sequentially 0 (Some [char_lookup CHR ''t'']) ! 0 ! 7 = prompt_z ! 0 ! 7 \<and>
   run next_from_cache greedy prompt_z cache_sequentially 0 (Some [char_lookup CHR ''t'']) ! 0 ! 11 = prompt_z ! 0 ! 11 \<and>
   run next_from_cache greedy prompt_z cache_sequentially 0 (Some [char_lookup CHR ''t'']) =
     map (map char_lookup) [''sequentzzzzz'']"
proof -
  let ?stop = "[char_lookup CHR ''t'']"
  have h1: "runs_iteration next_from_cache greedy prompt_z cache_sequentially 0 (Some ?stop) 6"
    by code_simp
  have h2: "(0::nat) < length prompt_z" by (simp add: prompt_z_def batch_size_def)
  have h3: "\<not> done_mask (state_at next_from_cache greedy prompt_z cache_sequentially 0 (Some ?stop) 6) ! 0"
    by code_simp
  have h4: "fst (select_next next_from_cache greedy
      (state_at next_from_cache greedy prompt_z cache_sequentially 0 (Some ?stop) 6)) 0 \<in> set ?stop"
    by code_simp
  have ex: "run next_from_cache greedy prompt_z cache_sequentially 0 (Some ?stop) = map (map char_lookup) [''sequentzzzzz'']"
    by code_simp
  note concl = run_early_stopping [OF h1 h2 h3 h4]
  have s7: "Suc 6 = (7::nat)" by simp
  from concl have c1: "done_mask (state_at next_from_cache greedy prompt_z cache_sequentially 0 (Some ?stop) 7) ! 0"
    unfolding s7 by blast
  from concl have fr: "run next_from_cache greedy prompt_z cache_sequentially 0 (Some ?stop) ! 0 ! i = prompt_z ! 0 ! i"
    if "0 + 6 < i" for i
    using that by blast
  have c2: "run next_from_cache greedy prompt_z cache_sequentially 0 (Some ?stop) ! 0 ! 7 = prompt_z ! 0 ! 7"
    by (rule fr) simp
  have c3: "run next_from_cache greedy prompt_z cache_sequentially 0 (Some ?stop) ! 0 ! 11 = prompt_z ! 0 ! 11"
    by (rule fr) simp
  from h1 h2 h3 h4 c1 c2 c3 ex show ?thesis by blast
qed

text \<open>
  The run of \<^verbatim>\<open>test_early_stopping\<close> of the Contrastive test: an all-\<open>s\<close> prompt and the
  cache of ``sequentiallyy''.
\<close>

lemma run_early_stopping_example_s:
  "run next_from_cache greedy (replicate batch_size (replicate 12 (char_lookup CHR ''s'')))
     [map char_lookup ''sequentiallyy''] 0 (Some [char_lookup CHR ''t'']) =
   map (map char_lookup) [''sequentsssss'']"
  by code_simp

end
